theory Spec2Isabelle
  imports Main "HOL-Library.Word" "HOL-Library.Signed_Division"
begin

section \<open>The clock configuration of fw/fdcanusb.cc\<close>

text \<open>
  The firmware runs on a 32-bit target: \<^verbatim>\<open>int\<close> and \<^verbatim>\<open>int32_t\<close> are 32-bit two's
  complement values, read with \<open>sint\<close> and compared with the signed order \<open>word_sle\<close>;
  \<^verbatim>\<open>uint32_t\<close> is read with \<open>unat\<close> and compared with the unsigned order of words.
\<close>

type_synonym int32 = "32 word"
type_synonym uint32 = "32 word"

subsection \<open>ClockManager::Config and the selection in ClockManager::UpdateConfig\<close>

text \<open>\<^verbatim>\<open>struct Config { int32_t can_hz = 85000000; ... }\<close>\<close>

record Config =
  can_hz :: int32

definition Config_default :: Config where
  "Config_default = \<lparr> can_hz = 85000000 \<rparr>"

text \<open>
  The class holds one member, \<^verbatim>\<open>Config clock_\<close> (a trailing underscore is not an
  Isabelle name, so the field is \<open>clock\<close> here).
\<close>

record ClockManager =
  clock :: Config

text \<open>
  The immediately invoked lambda of \<^verbatim>\<open>UpdateConfig\<close> that initialises the local
  \<^verbatim>\<open>const int can_clock_hz\<close>.
\<close>

definition can_clock_hz :: "ClockManager \<Rightarrow> int32" where
  "can_clock_hz cm =
     (if word_sle 85000000 (can_hz (clock cm)) then 85000000
      else if word_sle 80000000 (can_hz (clock cm)) then 80000000
      else if word_sle 60000000 (can_hz (clock cm)) then 60000000
      else 85000000)"

text \<open>The argument expression of the call \<^verbatim>\<open>SetupClock(can_clock_hz * 2)\<close>.\<close>

definition system_clock_hz :: "ClockManager \<Rightarrow> int32" where
  "system_clock_hz cm = can_clock_hz cm * 2"

subsection \<open>The HAL interface used by SetupClock\<close>

text \<open>
  The HAL functions and their macros come from the vendor headers. Their macro
  constants are kept symbolic; a bit mask built with \<^verbatim>\<open>|\<close> is the set of its flags; a
  struct field that the source never assigns is \<open>None\<close>.
\<close>

datatype HAL_StatusTypeDef = HAL_OK | HAL_ERROR | HAL_BUSY | HAL_TIMEOUT

datatype hal_const =
    RCC_CLOCKTYPE_SYSCLK | RCC_CLOCKTYPE_HCLK | RCC_CLOCKTYPE_PCLK1 | RCC_CLOCKTYPE_PCLK2
  | RCC_SYSCLKSOURCE_HSI | RCC_SYSCLKSOURCE_PLLCLK
  | RCC_SYSCLK_DIV1 | RCC_HCLK_DIV2
  | FLASH_LATENCY_6
  | RCC_OSCILLATORTYPE_HSI | RCC_OSCILLATORTYPE_HSI48
  | RCC_HSI_ON | RCC_HSICALIBRATION_DEFAULT | RCC_HSI48_ON
  | RCC_PLL_ON | RCC_PLLSOURCE_HSI | RCC_PLLM_DIV4
  | RCC_PLLP_DIV2 | RCC_PLLQ_DIV2 | RCC_PLLR_DIV2
  | RCC_PERIPHCLK_FDCAN | RCC_FDCANCLKSOURCE_PCLK1

record RCC_ClkInitTypeDef =
  ClockType :: "hal_const set"
  SYSCLKSource :: "hal_const option"
  AHBCLKDivider :: "hal_const option"
  APB1CLKDivider :: "hal_const option"
  APB2CLKDivider :: "hal_const option"

record RCC_PLLInitTypeDef =
  PLLState :: hal_const
  PLLSource :: hal_const
  PLLM :: hal_const
  PLLN :: uint32
  PLLP :: hal_const
  PLLQ :: hal_const
  PLLR :: hal_const

record RCC_OscInitTypeDef =
  OscillatorType :: "hal_const set"
  HSIState :: hal_const
  HSICalibrationValue :: hal_const
  HSI48State :: hal_const
  PLL :: RCC_PLLInitTypeDef

record RCC_PeriphCLKInitTypeDef =
  PeriphClockSelection :: "hal_const set"
  FdcanClockSelection :: hal_const

datatype hal_call =
    HAL_RCC_ClockConfig RCC_ClkInitTypeDef hal_const
  | HAL_RCC_OscConfig RCC_OscInitTypeDef
  | HAL_RCCEx_PeriphCLKConfig RCC_PeriphCLKInitTypeDef

text \<open>
  What the program does to its environment, in program order. \<open>Enter_SetupClock hz\<close>
  marks a call of \<^verbatim>\<open>SetupClock(hz)\<close>; \<open>Hal c st\<close> is the HAL call \<open>c\<close> returning
  \<open>st\<close>; \<open>Construct x\<close> is the constructor of the object \<open>x\<close> of \<^verbatim>\<open>main\<close>.
\<close>

datatype event =
    Enter_SetupClock int32
  | HAL_RCC_SYSCFG_CLK_ENABLE
  | HAL_RCC_PWR_CLK_ENABLE
  | Hal hal_call HAL_StatusTypeDef
  | Mbed_die
  | Construct string
  | PersistentConfig_Register string
  | TelemetryManager_Register string
  | PersistentConfig_Load
  | CommandManager_AsyncStart
  | CanManager_Start

text \<open>
  The update callback that \<^verbatim>\<open>ClockManager\<close> hands to the store: the lambda
  \<^verbatim>\<open>[this]() { this->UpdateConfig(); }\<close>. It is the only callback this file creates.
\<close>

datatype callback = ClockManager_UpdateConfig

text \<open>
  The state the clock code runs in: the hardware behind the HAL (\<open>hw\<close>, of any type),
  the events so far, the \<^verbatim>\<open>ClockManager\<close> object of \<^verbatim>\<open>main\<close>, and the elements
  registered with the persistent configuration store, in registration order.
\<close>

record 'hw world =
  hw :: 'hw
  trace :: "event list"
  clock_manager :: ClockManager
  elements :: "(string \<times> callback) list"

text \<open>
  The hardware is a parameter: \<open>hal c h\<close> is the status the HAL call \<open>c\<close> returns in the
  hardware state \<open>h\<close>, and the state it leaves.
\<close>

type_synonym 'hw hal = "hal_call \<Rightarrow> 'hw \<Rightarrow> HAL_StatusTypeDef \<times> 'hw"

text \<open>\<^verbatim>\<open>mbed_die()\<close> never returns: a computation either returns or has halted.\<close>

datatype 'w outcome = Returns 'w | Halts 'w

fun and_then :: "'w outcome \<Rightarrow> ('w \<Rightarrow> 'w outcome) \<Rightarrow> 'w outcome" where
  "and_then (Returns w) f = f w"
| "and_then (Halts w) f = Halts w"

fun final :: "'w outcome \<Rightarrow> 'w" where
  "final (Returns w) = w"
| "final (Halts w) = w"

definition emit :: "event \<Rightarrow> 'hw world \<Rightarrow> 'hw world" where
  "emit e w = w\<lparr> trace := trace w @ [e] \<rparr>"

text \<open>The pattern \<^verbatim>\<open>if (HAL_...(...) != HAL_OK) { mbed_die(); }\<close>.\<close>

definition hal_or_die :: "'hw hal \<Rightarrow> hal_call \<Rightarrow> 'hw world \<Rightarrow> 'hw world outcome" where
  "hal_or_die hal c w =
     (case hal c (hw w) of (st, h) \<Rightarrow>
        (if st \<noteq> HAL_OK then Halts (emit Mbed_die (emit (Hal c st) (w\<lparr> hw := h \<rparr>)))
         else Returns (emit (Hal c st) (w\<lparr> hw := h \<rparr>))))"

subsection \<open>SetupClock\<close>

text \<open>The first \<^verbatim>\<open>RCC_ClkInitStruct\<close>: only two fields of the local are assigned.\<close>

definition ClkInit_HSI :: RCC_ClkInitTypeDef where
  "ClkInit_HSI =
     \<lparr> ClockType = {RCC_CLOCKTYPE_SYSCLK},
       SYSCLKSource = Some RCC_SYSCLKSOURCE_HSI,
       AHBCLKDivider = None, APB1CLKDivider = None, APB2CLKDivider = None \<rparr>"

text \<open>
  \<^verbatim>\<open>PLLN = (clock_rate_hz / 1000000) * 24 / 48\<close> is computed in \<^verbatim>\<open>int\<close>, where C
  division truncates towards zero, and converted to the \<^verbatim>\<open>uint32_t\<close> field.
\<close>

definition PLLN_of :: "int32 \<Rightarrow> uint32" where
  "PLLN_of clock_rate_hz = word_of_int (((sint clock_rate_hz sdiv 1000000) * 24) sdiv 48)"

definition OscInit :: "int32 \<Rightarrow> RCC_OscInitTypeDef" where
  "OscInit clock_rate_hz =
     \<lparr> OscillatorType = {RCC_OSCILLATORTYPE_HSI, RCC_OSCILLATORTYPE_HSI48},
       HSIState = RCC_HSI_ON,
       HSICalibrationValue = RCC_HSICALIBRATION_DEFAULT,
       HSI48State = RCC_HSI48_ON,
       PLL = \<lparr> PLLState = RCC_PLL_ON, PLLSource = RCC_PLLSOURCE_HSI, PLLM = RCC_PLLM_DIV4,
               PLLN = PLLN_of clock_rate_hz,
               PLLP = RCC_PLLP_DIV2, PLLQ = RCC_PLLQ_DIV2, PLLR = RCC_PLLR_DIV2 \<rparr> \<rparr>"

definition ClkInit_PLL :: RCC_ClkInitTypeDef where
  "ClkInit_PLL =
     \<lparr> ClockType = {RCC_CLOCKTYPE_SYSCLK, RCC_CLOCKTYPE_HCLK, RCC_CLOCKTYPE_PCLK1,
                    RCC_CLOCKTYPE_PCLK2},
       SYSCLKSource = Some RCC_SYSCLKSOURCE_PLLCLK,
       AHBCLKDivider = Some RCC_SYSCLK_DIV1,
       APB1CLKDivider = Some RCC_HCLK_DIV2,
       APB2CLKDivider = Some RCC_HCLK_DIV2 \<rparr>"

definition PeriphClkInit :: RCC_PeriphCLKInitTypeDef where
  "PeriphClkInit =
     \<lparr> PeriphClockSelection = {RCC_PERIPHCLK_FDCAN},
       FdcanClockSelection = RCC_FDCANCLKSOURCE_PCLK1 \<rparr>"

definition SetupClock :: "'hw hal \<Rightarrow> int32 \<Rightarrow> 'hw world \<Rightarrow> 'hw world outcome" where
  "SetupClock hal clock_rate_hz w =
     and_then (hal_or_die hal (HAL_RCC_ClockConfig ClkInit_HSI FLASH_LATENCY_6)
                 (emit HAL_RCC_PWR_CLK_ENABLE (emit HAL_RCC_SYSCFG_CLK_ENABLE
                    (emit (Enter_SetupClock clock_rate_hz) w))))
       (\<lambda>w. and_then (hal_or_die hal (HAL_RCC_OscConfig (OscInit clock_rate_hz)) w)
          (\<lambda>w. and_then (hal_or_die hal (HAL_RCC_ClockConfig ClkInit_PLL FLASH_LATENCY_6) w)
             (\<lambda>w. hal_or_die hal (HAL_RCCEx_PeriphCLKConfig PeriphClkInit) w)))"

subsection \<open>ClockManager\<close>

definition UpdateConfig :: "'hw hal \<Rightarrow> 'hw world \<Rightarrow> 'hw world outcome" where
  "UpdateConfig hal w = SetupClock hal (system_clock_hz (clock_manager w)) w"

definition invoke :: "'hw hal \<Rightarrow> callback \<Rightarrow> 'hw world \<Rightarrow> 'hw world outcome" where
  "invoke hal cb w = (case cb of ClockManager_UpdateConfig \<Rightarrow> UpdateConfig hal w)"

text \<open>
  Modelled from the spec: \<^verbatim>\<open>micro::PersistentConfig\<close> (mjlib/micro/persistent_config.h is
  not among the sources). \<^verbatim>\<open>Register(key, record*, on_change_callback)\<close> adds an
  element to the store.
\<close>

definition Register :: "string \<Rightarrow> callback \<Rightarrow> 'hw world \<Rightarrow> 'hw world" where
  "Register key cb w =
     emit (PersistentConfig_Register key) (w\<lparr> elements := elements w @ [(key, cb)] \<rparr>)"

text \<open>
  The constructor: the member \<^verbatim>\<open>clock_\<close> gets its default member initialiser, and
  the body registers it under the key \<^verbatim>\<open>"clock"\<close> with the update callback.
\<close>

definition ClockManager_ctor :: "'hw world \<Rightarrow> 'hw world" where
  "ClockManager_ctor w =
     Register ''clock'' ClockManager_UpdateConfig
       (emit (Construct ''clock'') (w\<lparr> clock_manager := \<lparr> clock = Config_default \<rparr> \<rparr>))"

text \<open>
  Modelled from the spec: the store writes a value into the record registered under a
  key. Only the record \<^verbatim>\<open>ClockManager::clock_\<close>, whose address the constructor
  registered under \<^verbatim>\<open>"clock"\<close>, is part of the state here.
\<close>

definition store_record :: "string \<Rightarrow> int32 \<Rightarrow> 'hw world \<Rightarrow> 'hw world" where
  "store_record key v w =
     (if key = ''clock'' then w\<lparr> clock_manager := \<lparr> clock = \<lparr> can_hz = v \<rparr> \<rparr> \<rparr> else w)"

text \<open>
  Modelled from the spec: \<^verbatim>\<open>PersistentConfig::Load()\<close> restores each registered record
  from its persisted value, when there is one, and triggers the element's callback once.
  \<open>persisted key\<close> is the value stored on flash under \<open>key\<close>.
\<close>

fun Load_elements ::
  "'hw hal \<Rightarrow> (string \<Rightarrow> int32 option) \<Rightarrow> (string \<times> callback) list \<Rightarrow> 'hw world
     \<Rightarrow> 'hw world outcome" where
  "Load_elements hal persisted [] w = Returns w"
| "Load_elements hal persisted ((key, cb) # es) w =
     and_then
       (invoke hal cb (case persisted key of None \<Rightarrow> w | Some v \<Rightarrow> store_record key v w))
       (Load_elements hal persisted es)"

text \<open>
  Modelled from the spec: \<^verbatim>\<open>PersistentConfig::Load()\<close> as a whole, over the elements
  registered so far.
\<close>

definition Load :: "'hw hal \<Rightarrow> (string \<Rightarrow> int32 option) \<Rightarrow> 'hw world \<Rightarrow> 'hw world outcome" where
  "Load hal persisted w =
     Load_elements hal persisted (elements w) (emit PersistentConfig_Load w)"

text \<open>
  Modelled from the spec: a later external write to the record registered under \<open>key\<close>
  stores the value and triggers the element's callback.
\<close>

definition Write :: "'hw hal \<Rightarrow> string \<Rightarrow> int32 \<Rightarrow> 'hw world \<Rightarrow> 'hw world outcome" where
  "Write hal key v w =
     (case map_of (elements w) key of
        None \<Rightarrow> Returns w
      | Some cb \<Rightarrow> invoke hal cb (store_record key v w))"

subsection \<open>The start of main, up to the scheduler loop\<close>

text \<open>
  The objects of \<^verbatim>\<open>main\<close> in declaration order. The constructors of the other classes
  are outside this file: each is an event, and is taken to return.
\<close>

definition construct_all :: "string list \<Rightarrow> 'hw world \<Rightarrow> 'hw world" where
  "construct_all xs w = fold (\<lambda>x. emit (Construct x)) xs w"

text \<open>
  Modelled from the spec: the constructor of \<^verbatim>\<open>micro::PersistentConfig\<close>; a new store
  has no element. What the other objects of \<^verbatim>\<open>main\<close> register with it happens in code
  outside this file and is not part of the state.
\<close>

definition PersistentConfig_ctor :: "'hw world \<Rightarrow> 'hw world" where
  "PersistentConfig_ctor w = emit (Construct ''persistent_config'') (w\<lparr> elements := [] \<rparr>)"

definition main_boot ::
  "'hw hal \<Rightarrow> (string \<Rightarrow> int32 option) \<Rightarrow> 'hw world \<Rightarrow> 'hw world outcome" where
  "main_boot hal persisted w =
     and_then (SetupClock hal 170000000 w)
       (\<lambda>w. and_then
          (Load hal persisted
             (emit (TelemetryManager_Register ''git'')
                (construct_all [''can_manager'', ''firmware_info'', ''git_info'']
                   (ClockManager_ctor
                      (PersistentConfig_ctor
                         (construct_all
                            [''power_led'', ''timer'', ''pool'', ''usb'', ''uart'',
                             ''write_stream'', ''command_manager'', ''telemetry_manager'',
                             ''flash_interface'']
                            w))))))
          (\<lambda>w. Returns (emit CanManager_Start (emit CommandManager_AsyncStart w))))"

subsection \<open>A sample environment\<close>

text \<open>
  Hardware that accepts every call, hardware that rejects its \<open>i\<close>-th call (counting from
  0; the hardware state counts the calls), and a world before \<^verbatim>\<open>main\<close> has run.
\<close>

definition hal_accepts :: "unit hal" where
  "hal_accepts c h = (HAL_OK, h)"

definition hal_rejects :: "nat \<Rightarrow> nat hal" where
  "hal_rejects i c n = (if n = i then HAL_ERROR else HAL_OK, Suc n)"

definition world0 :: "'hw \<Rightarrow> 'hw world" where
  "world0 h = \<lparr> hw = h, trace = [], clock_manager = \<lparr> clock = Config_default \<rparr>, elements = [] \<rparr>"

section \<open>The scheduler loop of main\<close>

datatype pollable = uart | can_manager | usb

datatype call = timer_read_ms | Poll pollable | Poll10Ms pollable

text \<open>
  Modelled from the spec: \<^verbatim>\<open>fw::MillisecondTimer::read_ms()\<close> (fw/millisecond_timer.h is
  not among the sources) reads a monotonically increasing millisecond counter that
  overflows: the 32-bit value returned when the device has been up for \<open>uptime_ms\<close>
  milliseconds.
\<close>

definition read_ms :: "nat \<Rightarrow> uint32" where
  "read_ms uptime_ms = of_nat uptime_ms"

text \<open>The test \<^verbatim>\<open>now - start > 10\<close> on \<^verbatim>\<open>uint32_t\<close> values.\<close>

definition threshold_crossed :: "uint32 \<Rightarrow> uint32 \<Rightarrow> bool" where
  "threshold_crossed start now \<longleftrightarrow> now - start > 10"

text \<open>
  The loop makes one external call after the other. Its environment is \<open>clk\<close>: \<open>clk k\<close>
  is the uptime in milliseconds at which the \<open>k\<close>-th of these calls is made, so a call
  that blocks shows as a late next call. Every call is taken to return. An event is a
  call with the uptime at which it is made.

  One pass of the inner loop that does not leave it, lines 187 to 192, when its first
  call is the \<open>k\<close>-th.
\<close>

definition inner_pass :: "(nat \<Rightarrow> nat) \<Rightarrow> nat \<Rightarrow> (nat \<times> call) list" where
  "inner_pass clk k =
     [(clk k, timer_read_ms), (clk (k + 1), Poll uart), (clk (k + 2), Poll can_manager),
      (clk (k + 3), Poll usb)]"

text \<open>
  The inner \<^verbatim>\<open>while (true)\<close>, entered with the local \<open>start\<close> when the next call is the
  \<open>k\<close>-th. The first argument bounds the number of iterations that are followed; the
  result is the events, and the index of the next call when the loop was left by
  \<^verbatim>\<open>break\<close> (\<open>None\<close> when it is still running).
\<close>

fun inner_loop ::
  "nat \<Rightarrow> (nat \<Rightarrow> nat) \<Rightarrow> uint32 \<Rightarrow> nat \<Rightarrow> (nat \<times> call) list \<times> nat option" where
  "inner_loop 0 clk start k = ([], None)"
| "inner_loop (Suc n) clk start k =
     (let now = read_ms (clk k) in
      if threshold_crossed start now then ([(clk k, timer_read_ms)], Some (k + 1))
      else (case inner_loop n clk start (k + 4) of (tr, r) \<Rightarrow> (inner_pass clk k @ tr, r)))"

text \<open>One iteration of the outer \<^verbatim>\<open>while (true)\<close>: lines 185 to 196.\<close>

definition outer_cycle ::
  "nat \<Rightarrow> (nat \<Rightarrow> nat) \<Rightarrow> nat \<Rightarrow> (nat \<times> call) list \<times> nat option" where
  "outer_cycle n clk k =
     (let start = read_ms (clk k) in
      case inner_loop n clk start (k + 1) of
        (tr, None) \<Rightarrow> ((clk k, timer_read_ms) # tr, None)
      | (tr, Some k') \<Rightarrow>
          ((clk k, timer_read_ms) # tr
             @ [(clk k', Poll10Ms can_manager), (clk (k' + 1), Poll10Ms usb)],
           Some (k' + 2)))"

text \<open>
  The outer loop, followed for at most \<open>c\<close> iterations, each with at most \<open>n\<close> inner
  iterations.
\<close>

fun main_loop :: "nat \<Rightarrow> nat \<Rightarrow> (nat \<Rightarrow> nat) \<Rightarrow> nat \<Rightarrow> (nat \<times> call) list" where
  "main_loop 0 n clk k = []"
| "main_loop (Suc c) n clk k =
     (case outer_cycle n clk k of
        (tr, None) \<Rightarrow> tr
      | (tr, Some k') \<Rightarrow> tr @ main_loop c n clk k')"

text \<open>
  For stating properties: the calls of a trace, the objects of its \<^verbatim>\<open>Poll()\<close> calls,
  and the events of \<open>p\<close> passes in a row from the \<open>k\<close>-th call on.
\<close>

definition calls :: "(nat \<times> call) list \<Rightarrow> call list" where
  "calls tr = map snd tr"

fun polls :: "call list \<Rightarrow> pollable list" where
  "polls [] = []"
| "polls (Poll p # cs) = p # polls cs"
| "polls (c # cs) = polls cs"

fun passes :: "(nat \<Rightarrow> nat) \<Rightarrow> nat \<Rightarrow> nat \<Rightarrow> (nat \<times> call) list" where
  "passes clk k 0 = []"
| "passes clk k (Suc p) = inner_pass clk k @ passes clk (k + 4) p"

section \<open>Properties of the clock configuration\<close>

lemma emit_simps [simp]:
  "trace (emit e w) = trace w @ [e]" "hw (emit e w) = hw w"
  "clock_manager (emit e w) = clock_manager w" "elements (emit e w) = elements w"
  by (simp_all add: emit_def)

lemma and_then_Returns [simp]: "and_then x Returns = x"
  by (cases x) simp_all

text \<open>A run of \<^verbatim>\<open>SetupClock\<close> that returns has made its four HAL calls, all accepted.\<close>

lemma SetupClock_Returns:
  assumes "SetupClock hal hz w = Returns w'"
  shows "trace w' = trace w @
        [Enter_SetupClock hz, HAL_RCC_SYSCFG_CLK_ENABLE, HAL_RCC_PWR_CLK_ENABLE,
         Hal (HAL_RCC_ClockConfig ClkInit_HSI FLASH_LATENCY_6) HAL_OK,
         Hal (HAL_RCC_OscConfig (OscInit hz)) HAL_OK,
         Hal (HAL_RCC_ClockConfig ClkInit_PLL FLASH_LATENCY_6) HAL_OK,
         Hal (HAL_RCCEx_PeriphCLKConfig PeriphClkInit) HAL_OK]"
    and "clock_manager w' = clock_manager w" and "elements w' = elements w"
  using assms unfolding SetupClock_def hal_or_die_def
  by (auto split: prod.splits if_splits)

text \<open>A run of \<^verbatim>\<open>SetupClock\<close> starts with the event of its call and adds no event of main.\<close>

lemma SetupClock_trace:
  "\<exists>es. trace (final (SetupClock hal hz w)) = trace w @ Enter_SetupClock hz # es \<and>
     PersistentConfig_Load \<notin> set es \<and> (\<forall>x. Construct x \<notin> set es) \<and>
     (\<forall>hz'. Enter_SetupClock hz' \<notin> set es)"
  unfolding SetupClock_def hal_or_die_def
  by (auto split: prod.splits if_splits)

lemma SetupClock_frame:
  "clock_manager (final (SetupClock hal hz w)) = clock_manager w"
  "elements (final (SetupClock hal hz w)) = elements w"
  unfolding SetupClock_def hal_or_die_def
  by (auto split: prod.splits if_splits)

lemma hal_accepts_SetupClock:
  "SetupClock hal_accepts hz w = Returns (w\<lparr> trace := trace w @
        [Enter_SetupClock hz, HAL_RCC_SYSCFG_CLK_ENABLE, HAL_RCC_PWR_CLK_ENABLE,
         Hal (HAL_RCC_ClockConfig ClkInit_HSI FLASH_LATENCY_6) HAL_OK,
         Hal (HAL_RCC_OscConfig (OscInit hz)) HAL_OK,
         Hal (HAL_RCC_ClockConfig ClkInit_PLL FLASH_LATENCY_6) HAL_OK,
         Hal (HAL_RCCEx_PeriphCLKConfig PeriphClkInit) HAL_OK] \<rparr>)"
  by (simp add: SetupClock_def hal_or_die_def hal_accepts_def emit_def)

lemma can_clock_hz_cases:
  "can_clock_hz cm = 85000000 \<or> can_clock_hz cm = 80000000 \<or> can_clock_hz cm = 60000000"
  by (simp add: can_clock_hz_def)

lemma construct_all_simps [simp]:
  "trace (construct_all xs w) = trace w @ map Construct xs"
  "clock_manager (construct_all xs w) = clock_manager w"
  "elements (construct_all xs w) = elements w"
  "hw (construct_all xs w) = hw w"
  unfolding construct_all_def by (induction xs arbitrary: w) simp_all

lemma ctor_simps [simp]:
  "trace (PersistentConfig_ctor w) = trace w @ [Construct ''persistent_config'']"
  "elements (PersistentConfig_ctor w) = []"
  "trace (ClockManager_ctor w)
     = trace w @ [Construct ''clock'', PersistentConfig_Register ''clock'']"
  "elements (ClockManager_ctor w) = elements w @ [(''clock'', ClockManager_UpdateConfig)]"
  "clock_manager (ClockManager_ctor w) = \<lparr> clock = \<lparr> can_hz = 85000000 \<rparr> \<rparr>"
  by (simp_all add: PersistentConfig_ctor_def ClockManager_ctor_def Register_def
      Config_default_def)

lemma store_record_simps [simp]:
  "trace (store_record key v w) = trace w"
  "elements (store_record key v w) = elements w"
  by (simp_all add: store_record_def)

lemma Load_elements_Nil: "Load_elements hal persisted [] = Returns"
  by (rule ext) simp

text \<open>With the one element of \<^verbatim>\<open>ClockManager\<close> registered, \<^verbatim>\<open>Load\<close> is one update.\<close>

lemma Load_single:
  assumes "elements w = [(''clock'', ClockManager_UpdateConfig)]"
  shows "\<exists>es. trace (final (Load hal persisted w))
            = trace w @ PersistentConfig_Load # es
          \<and> PersistentConfig_Load \<notin> set es \<and> (\<forall>x. Construct x \<notin> set es)"
proof -
  define w2 where "w2 = (case persisted ''clock'' of None \<Rightarrow> emit PersistentConfig_Load w
             | Some v \<Rightarrow> store_record ''clock'' v (emit PersistentConfig_Load w))"
  have t: "trace w2 = trace w @ [PersistentConfig_Load]"
    by (simp add: w2_def split: option.splits)
  have "Load hal persisted w = SetupClock hal (system_clock_hz (clock_manager w2)) w2"
    using assms by (simp add: Load_def invoke_def UpdateConfig_def Load_elements_Nil w2_def)
  with SetupClock_trace [of hal "system_clock_hz (clock_manager w2)" w2] t
  show ?thesis by auto
qed

text \<open>
  Claim C1. For every 32-bit signed \<open>can_hz\<close>, the frequency selected in
  \<^verbatim>\<open>UpdateConfig\<close> is one of 60,000,000, 80,000,000 and 85,000,000: it is 85,000,000
  when \<open>can_hz \<ge> 85,000,000\<close>, else 80,000,000 when \<open>can_hz \<ge> 80,000,000\<close>, else 60,000,000
  when \<open>can_hz \<ge> 60,000,000\<close>, else the fallback 85,000,000. In particular 84,999,999
  selects 80,000,000, 85,000,000 selects 85,000,000 and 59,999,999 selects 85,000,000. The
  selection is a total function with no error value.
\<close>

theorem can_clock_hz_tiers:
  "can_clock_hz cm \<in> {60000000, 80000000, 85000000}
   \<and> sint (can_clock_hz cm) =
       (if 85000000 \<le> sint (can_hz (clock cm)) then 85000000
        else if 80000000 \<le> sint (can_hz (clock cm)) then 80000000
        else if 60000000 \<le> sint (can_hz (clock cm)) then 60000000
        else 85000000)
   \<and> can_clock_hz \<lparr> clock = \<lparr> can_hz = 84999999 \<rparr> \<rparr> = 80000000
   \<and> can_clock_hz \<lparr> clock = \<lparr> can_hz = 85000000 \<rparr> \<rparr> = 85000000
   \<and> can_clock_hz \<lparr> clock = \<lparr> can_hz = 59999999 \<rparr> \<rparr> = 85000000"
  by (simp add: can_clock_hz_def word_sle_eq)

text \<open>
  Claim C2. The plan of an update is the selected frequency (the local
  \<^verbatim>\<open>can_clock_hz\<close>) and the system clock frequency (the argument of the one call of
  \<^verbatim>\<open>SetupClock\<close> that \<^verbatim>\<open>UpdateConfig\<close> makes). For every \<open>can_hz\<close> the system clock
  frequency is exactly twice the selected one, as integers, with no overflow. A persisted
  85,000,000 gives 85,000,000 and 170,000,000; 61,000,000 gives 60,000,000 and
  120,000,000; 0 gives the fallback 85,000,000 and 170,000,000.
\<close>

theorem UpdateConfig_system_clock:
  "sint (system_clock_hz (clock_manager w)) = 2 * sint (can_clock_hz (clock_manager w))
   \<and> (\<exists>es. trace (final (UpdateConfig hal w))
         = trace w @ Enter_SetupClock (system_clock_hz (clock_manager w)) # es
         \<and> (\<forall>hz. Enter_SetupClock hz \<notin> set es))
   \<and> can_clock_hz \<lparr> clock = \<lparr> can_hz = 85000000 \<rparr> \<rparr> = 85000000
   \<and> system_clock_hz \<lparr> clock = \<lparr> can_hz = 85000000 \<rparr> \<rparr> = 170000000
   \<and> can_clock_hz \<lparr> clock = \<lparr> can_hz = 61000000 \<rparr> \<rparr> = 60000000
   \<and> system_clock_hz \<lparr> clock = \<lparr> can_hz = 61000000 \<rparr> \<rparr> = 120000000
   \<and> can_clock_hz \<lparr> clock = \<lparr> can_hz = 0 \<rparr> \<rparr> = 85000000
   \<and> system_clock_hz \<lparr> clock = \<lparr> can_hz = 0 \<rparr> \<rparr> = 170000000"
proof -
  have "sint (system_clock_hz (clock_manager w)) = 2 * sint (can_clock_hz (clock_manager w))"
    using can_clock_hz_cases [of "clock_manager w"] by (auto simp: system_clock_hz_def)
  moreover have "\<exists>es. trace (final (UpdateConfig hal w))
         = trace w @ Enter_SetupClock (system_clock_hz (clock_manager w)) # es
         \<and> (\<forall>hz. Enter_SetupClock hz \<notin> set es)"
    using SetupClock_trace [of hal "system_clock_hz (clock_manager w)" w]
    by (auto simp: UpdateConfig_def)
  ultimately show ?thesis
    by (simp add: can_clock_hz_def system_clock_hz_def word_sle_eq)
qed

text \<open>
  Claim C7. When \<^verbatim>\<open>UpdateConfig\<close> has returned and is invoked again with the persisted
  value unchanged, the second invocation computes the same plan: \<^verbatim>\<open>UpdateConfig\<close>
  leaves the \<^verbatim>\<open>ClockManager\<close> as it was, the selected and the system clock frequency are
  functions of it alone, and the second invocation calls \<^verbatim>\<open>SetupClock\<close> with the
  frequency of the first, whatever the hardware state then is.
\<close>

theorem UpdateConfig_twice:
  assumes "UpdateConfig hal w = Returns w1"
  shows "clock_manager w1 = clock_manager w
    \<and> can_clock_hz (clock_manager w1) = can_clock_hz (clock_manager w)
    \<and> system_clock_hz (clock_manager w1) = system_clock_hz (clock_manager w)
    \<and> (\<exists>es. trace (final (UpdateConfig hal w1))
          = trace w1 @ Enter_SetupClock (system_clock_hz (clock_manager w)) # es)"
proof -
  have cm: "clock_manager w1 = clock_manager w"
    using assms SetupClock_frame(1) [of hal "system_clock_hz (clock_manager w)" w]
    by (simp add: UpdateConfig_def)
  have "\<exists>es. trace (final (UpdateConfig hal w1))
          = trace w1 @ Enter_SetupClock (system_clock_hz (clock_manager w1)) # es"
    using SetupClock_trace [of hal "system_clock_hz (clock_manager w1)" w1]
    by (auto simp: UpdateConfig_def)
  with cm show ?thesis by simp
qed

theorem UpdateConfig_twice_witness:
  "UpdateConfig hal_accepts (world0 ()) = Returns (final (UpdateConfig hal_accepts (world0 ())))
   \<and> system_clock_hz (clock_manager (final (UpdateConfig hal_accepts (world0 ())))) = 170000000"
proof -
  have h: "UpdateConfig hal_accepts (world0 ())
            = Returns (final (UpdateConfig hal_accepts (world0 ())))"
    by (simp add: UpdateConfig_def hal_accepts_SetupClock)
  have "system_clock_hz (clock_manager (world0 ())) = 170000000"
    by (simp add: world0_def Config_default_def system_clock_hz_def can_clock_hz_def
        word_sle_eq)
  with h UpdateConfig_twice [OF h] show ?thesis by simp
qed

text \<open>
  Claim C5. \<^verbatim>\<open>SetupClock\<close> makes four HAL calls: the system clock to the internal
  oscillator, the PLL, the system clock back to the PLL, the clock source of the CAN
  peripheral. On any hardware a run either has all four accepted and returns, or one of
  them returns a status other than \<^verbatim>\<open>HAL_OK\<close> and the run ends at \<^verbatim>\<open>mbed_die()\<close> right
  after that call: no later call is made and none is repeated. Each of the four can be
  the one that fails.
\<close>

theorem SetupClock_halts_on_failure:
  "((\<exists>w'. SetupClock hal hz w = Returns w' \<and>
      trace w' = trace w @
        [Enter_SetupClock hz, HAL_RCC_SYSCFG_CLK_ENABLE, HAL_RCC_PWR_CLK_ENABLE,
         Hal (HAL_RCC_ClockConfig ClkInit_HSI FLASH_LATENCY_6) HAL_OK,
         Hal (HAL_RCC_OscConfig (OscInit hz)) HAL_OK,
         Hal (HAL_RCC_ClockConfig ClkInit_PLL FLASH_LATENCY_6) HAL_OK,
         Hal (HAL_RCCEx_PeriphCLKConfig PeriphClkInit) HAL_OK])
   \<or> (\<exists>w' st. SetupClock hal hz w = Halts w' \<and> st \<noteq> HAL_OK \<and>
      (trace w' = trace w @
        [Enter_SetupClock hz, HAL_RCC_SYSCFG_CLK_ENABLE, HAL_RCC_PWR_CLK_ENABLE,
         Hal (HAL_RCC_ClockConfig ClkInit_HSI FLASH_LATENCY_6) st, Mbed_die]
       \<or> trace w' = trace w @
        [Enter_SetupClock hz, HAL_RCC_SYSCFG_CLK_ENABLE, HAL_RCC_PWR_CLK_ENABLE,
         Hal (HAL_RCC_ClockConfig ClkInit_HSI FLASH_LATENCY_6) HAL_OK,
         Hal (HAL_RCC_OscConfig (OscInit hz)) st, Mbed_die]
       \<or> trace w' = trace w @
        [Enter_SetupClock hz, HAL_RCC_SYSCFG_CLK_ENABLE, HAL_RCC_PWR_CLK_ENABLE,
         Hal (HAL_RCC_ClockConfig ClkInit_HSI FLASH_LATENCY_6) HAL_OK,
         Hal (HAL_RCC_OscConfig (OscInit hz)) HAL_OK,
         Hal (HAL_RCC_ClockConfig ClkInit_PLL FLASH_LATENCY_6) st, Mbed_die]
       \<or> trace w' = trace w @
        [Enter_SetupClock hz, HAL_RCC_SYSCFG_CLK_ENABLE, HAL_RCC_PWR_CLK_ENABLE,
         Hal (HAL_RCC_ClockConfig ClkInit_HSI FLASH_LATENCY_6) HAL_OK,
         Hal (HAL_RCC_OscConfig (OscInit hz)) HAL_OK,
         Hal (HAL_RCC_ClockConfig ClkInit_PLL FLASH_LATENCY_6) HAL_OK,
         Hal (HAL_RCCEx_PeriphCLKConfig PeriphClkInit) st, Mbed_die])))
   \<and> (\<exists>w'. SetupClock (hal_rejects 0) hz (world0 0) = Halts w' \<and> trace w' =
        [Enter_SetupClock hz, HAL_RCC_SYSCFG_CLK_ENABLE, HAL_RCC_PWR_CLK_ENABLE,
         Hal (HAL_RCC_ClockConfig ClkInit_HSI FLASH_LATENCY_6) HAL_ERROR, Mbed_die])
   \<and> (\<exists>w'. SetupClock (hal_rejects 1) hz (world0 0) = Halts w' \<and> trace w' =
        [Enter_SetupClock hz, HAL_RCC_SYSCFG_CLK_ENABLE, HAL_RCC_PWR_CLK_ENABLE,
         Hal (HAL_RCC_ClockConfig ClkInit_HSI FLASH_LATENCY_6) HAL_OK,
         Hal (HAL_RCC_OscConfig (OscInit hz)) HAL_ERROR, Mbed_die])
   \<and> (\<exists>w'. SetupClock (hal_rejects 2) hz (world0 0) = Halts w' \<and> trace w' =
        [Enter_SetupClock hz, HAL_RCC_SYSCFG_CLK_ENABLE, HAL_RCC_PWR_CLK_ENABLE,
         Hal (HAL_RCC_ClockConfig ClkInit_HSI FLASH_LATENCY_6) HAL_OK,
         Hal (HAL_RCC_OscConfig (OscInit hz)) HAL_OK,
         Hal (HAL_RCC_ClockConfig ClkInit_PLL FLASH_LATENCY_6) HAL_ERROR, Mbed_die])
   \<and> (\<exists>w'. SetupClock (hal_rejects 3) hz (world0 0) = Halts w' \<and> trace w' =
        [Enter_SetupClock hz, HAL_RCC_SYSCFG_CLK_ENABLE, HAL_RCC_PWR_CLK_ENABLE,
         Hal (HAL_RCC_ClockConfig ClkInit_HSI FLASH_LATENCY_6) HAL_OK,
         Hal (HAL_RCC_OscConfig (OscInit hz)) HAL_OK,
         Hal (HAL_RCC_ClockConfig ClkInit_PLL FLASH_LATENCY_6) HAL_OK,
         Hal (HAL_RCCEx_PeriphCLKConfig PeriphClkInit) HAL_ERROR, Mbed_die])"
proof (intro conjI)
  show "(\<exists>w'. SetupClock hal hz w = Returns w' \<and>
      trace w' = trace w @
        [Enter_SetupClock hz, HAL_RCC_SYSCFG_CLK_ENABLE, HAL_RCC_PWR_CLK_ENABLE,
         Hal (HAL_RCC_ClockConfig ClkInit_HSI FLASH_LATENCY_6) HAL_OK,
         Hal (HAL_RCC_OscConfig (OscInit hz)) HAL_OK,
         Hal (HAL_RCC_ClockConfig ClkInit_PLL FLASH_LATENCY_6) HAL_OK,
         Hal (HAL_RCCEx_PeriphCLKConfig PeriphClkInit) HAL_OK])
   \<or> (\<exists>w' st. SetupClock hal hz w = Halts w' \<and> st \<noteq> HAL_OK \<and>
      (trace w' = trace w @
        [Enter_SetupClock hz, HAL_RCC_SYSCFG_CLK_ENABLE, HAL_RCC_PWR_CLK_ENABLE,
         Hal (HAL_RCC_ClockConfig ClkInit_HSI FLASH_LATENCY_6) st, Mbed_die]
       \<or> trace w' = trace w @
        [Enter_SetupClock hz, HAL_RCC_SYSCFG_CLK_ENABLE, HAL_RCC_PWR_CLK_ENABLE,
         Hal (HAL_RCC_ClockConfig ClkInit_HSI FLASH_LATENCY_6) HAL_OK,
         Hal (HAL_RCC_OscConfig (OscInit hz)) st, Mbed_die]
       \<or> trace w' = trace w @
        [Enter_SetupClock hz, HAL_RCC_SYSCFG_CLK_ENABLE, HAL_RCC_PWR_CLK_ENABLE,
         Hal (HAL_RCC_ClockConfig ClkInit_HSI FLASH_LATENCY_6) HAL_OK,
         Hal (HAL_RCC_OscConfig (OscInit hz)) HAL_OK,
         Hal (HAL_RCC_ClockConfig ClkInit_PLL FLASH_LATENCY_6) st, Mbed_die]
       \<or> trace w' = trace w @
        [Enter_SetupClock hz, HAL_RCC_SYSCFG_CLK_ENABLE, HAL_RCC_PWR_CLK_ENABLE,
         Hal (HAL_RCC_ClockConfig ClkInit_HSI FLASH_LATENCY_6) HAL_OK,
         Hal (HAL_RCC_OscConfig (OscInit hz)) HAL_OK,
         Hal (HAL_RCC_ClockConfig ClkInit_PLL FLASH_LATENCY_6) HAL_OK,
         Hal (HAL_RCCEx_PeriphCLKConfig PeriphClkInit) st, Mbed_die]))"
    unfolding SetupClock_def hal_or_die_def
    by (auto split: prod.splits)
qed (simp_all add: SetupClock_def hal_or_die_def hal_rejects_def world0_def emit_def)

text \<open>
  Claim C6. The constructor of \<^verbatim>\<open>ClockManager\<close> registers, under the key
  \<^verbatim>\<open>"clock"\<close>, its record (one 32-bit signed field \<open>can_hz\<close>, 85,000,000 by default) and
  a callback that is \<^verbatim>\<open>UpdateConfig\<close>. In a store holding that element, \<^verbatim>\<open>Load()\<close> and
  a later write to the record both run \<^verbatim>\<open>UpdateConfig\<close> on the record as restored or
  written, and \<^verbatim>\<open>UpdateConfig\<close> is \<^verbatim>\<open>SetupClock\<close> at twice the selected frequency.
\<close>

theorem ClockManager_registers:
  "elements (ClockManager_ctor (PersistentConfig_ctor w))
     = [(''clock'', ClockManager_UpdateConfig)]
   \<and> clock_manager (ClockManager_ctor w) = \<lparr> clock = \<lparr> can_hz = 85000000 \<rparr> \<rparr>
   \<and> trace (ClockManager_ctor w)
       = trace w @ [Construct ''clock'', PersistentConfig_Register ''clock'']
   \<and> invoke hal ClockManager_UpdateConfig w2 = UpdateConfig hal w2
   \<and> (elements w2 = [(''clock'', ClockManager_UpdateConfig)] \<longrightarrow>
        Load hal persisted w2 =
          UpdateConfig hal
            (case persisted ''clock'' of None \<Rightarrow> emit PersistentConfig_Load w2
             | Some v \<Rightarrow> store_record ''clock'' v (emit PersistentConfig_Load w2))
        \<and> Write hal ''clock'' v w2 = UpdateConfig hal (store_record ''clock'' v w2))
   \<and> UpdateConfig hal w2 = SetupClock hal (can_clock_hz (clock_manager w2) * 2) w2"
  by (simp add: Load_def Write_def invoke_def UpdateConfig_def system_clock_hz_def
      Load_elements_Nil)

theorem ClockManager_registers_witness:
  "elements (ClockManager_ctor (PersistentConfig_ctor (world0 ())))
     = [(''clock'', ClockManager_UpdateConfig)]
   \<and> trace (final (Load hal_accepts (\<lambda>key. Some 61000000)
         (ClockManager_ctor (PersistentConfig_ctor (world0 ()))))) =
      [Construct ''persistent_config'', Construct ''clock'',
       PersistentConfig_Register ''clock'', PersistentConfig_Load,
       Enter_SetupClock 120000000, HAL_RCC_SYSCFG_CLK_ENABLE, HAL_RCC_PWR_CLK_ENABLE,
       Hal (HAL_RCC_ClockConfig ClkInit_HSI FLASH_LATENCY_6) HAL_OK,
       Hal (HAL_RCC_OscConfig (OscInit 120000000)) HAL_OK,
       Hal (HAL_RCC_ClockConfig ClkInit_PLL FLASH_LATENCY_6) HAL_OK,
       Hal (HAL_RCCEx_PeriphCLKConfig PeriphClkInit) HAL_OK]
   \<and> trace (final (Write hal_accepts ''clock'' 80000001
         (ClockManager_ctor (PersistentConfig_ctor (world0 ()))))) =
      [Construct ''persistent_config'', Construct ''clock'',
       PersistentConfig_Register ''clock'',
       Enter_SetupClock 160000000, HAL_RCC_SYSCFG_CLK_ENABLE, HAL_RCC_PWR_CLK_ENABLE,
       Hal (HAL_RCC_ClockConfig ClkInit_HSI FLASH_LATENCY_6) HAL_OK,
       Hal (HAL_RCC_OscConfig (OscInit 160000000)) HAL_OK,
       Hal (HAL_RCC_ClockConfig ClkInit_PLL FLASH_LATENCY_6) HAL_OK,
       Hal (HAL_RCCEx_PeriphCLKConfig PeriphClkInit) HAL_OK]"
proof -
  have e: "elements (ClockManager_ctor (PersistentConfig_ctor (world0 ())))
            = [(''clock'', ClockManager_UpdateConfig)]"
    by simp
  have t: "trace (world0 ()) = []"
    by (simp add: world0_def)
  show ?thesis
    using ClockManager_registers [of "world0 ()" hal_accepts
        "ClockManager_ctor (PersistentConfig_ctor (world0 ()))" "\<lambda>key. Some 61000000"
        80000001] e t
    by (simp add: UpdateConfig_def hal_accepts_SetupClock store_record_def
        system_clock_hz_def can_clock_hz_def word_sle_eq)
qed

text \<open>
  Claim C9. \<^verbatim>\<open>main\<close> starts with \<^verbatim>\<open>SetupClock(170000000)\<close>. When that call halts the
  device, \<^verbatim>\<open>persistent_config.Load()\<close> is never reached. Otherwise the events up to the
  one call of \<^verbatim>\<open>Load()\<close> are: the default clock setup with its four accepted HAL calls,
  then the constructors of all objects of \<^verbatim>\<open>main\<close> in declaration order, then the
  telemetry registration; nothing is constructed after \<^verbatim>\<open>Load()\<close>.
\<close>

theorem main_boot_order:
  "(\<exists>w' es. main_boot hal persisted w = Halts w' \<and> SetupClock hal 170000000 w = Halts w'
       \<and> trace w' = trace w @ Enter_SetupClock 170000000 # es
       \<and> PersistentConfig_Load \<notin> set es)
   \<or> (\<exists>post. trace (final (main_boot hal persisted w)) =
         trace w @
         [Enter_SetupClock 170000000, HAL_RCC_SYSCFG_CLK_ENABLE, HAL_RCC_PWR_CLK_ENABLE,
          Hal (HAL_RCC_ClockConfig ClkInit_HSI FLASH_LATENCY_6) HAL_OK,
          Hal (HAL_RCC_OscConfig (OscInit 170000000)) HAL_OK,
          Hal (HAL_RCC_ClockConfig ClkInit_PLL FLASH_LATENCY_6) HAL_OK,
          Hal (HAL_RCCEx_PeriphCLKConfig PeriphClkInit) HAL_OK,
          Construct ''power_led'', Construct ''timer'', Construct ''pool'', Construct ''usb'',
          Construct ''uart'', Construct ''write_stream'', Construct ''command_manager'',
          Construct ''telemetry_manager'', Construct ''flash_interface'',
          Construct ''persistent_config'', Construct ''clock'',
          PersistentConfig_Register ''clock'', Construct ''can_manager'',
          Construct ''firmware_info'', Construct ''git_info'',
          TelemetryManager_Register ''git'', PersistentConfig_Load] @ post
       \<and> PersistentConfig_Load \<notin> set post \<and> (\<forall>x. Construct x \<notin> set post))"
proof (cases "SetupClock hal 170000000 w")
  case (Halts w')
  then have "main_boot hal persisted w = Halts w'"
    by (simp add: main_boot_def)
  moreover have "\<exists>es. trace w' = trace w @ Enter_SetupClock 170000000 # es
       \<and> PersistentConfig_Load \<notin> set es"
    using SetupClock_trace [of hal 170000000 w] Halts by auto
  ultimately show ?thesis using Halts by auto
next
  case (Returns w1)
  define W where "W = emit (TelemetryManager_Register ''git'')
                (construct_all [''can_manager'', ''firmware_info'', ''git_info'']
                   (ClockManager_ctor
                      (PersistentConfig_ctor
                         (construct_all
                            [''power_led'', ''timer'', ''pool'', ''usb'', ''uart'',
                             ''write_stream'', ''command_manager'', ''telemetry_manager'',
                             ''flash_interface'']
                            w1))))"
  have el: "elements W = [(''clock'', ClockManager_UpdateConfig)]"
    by (simp add: W_def)
  have tW: "trace W = trace w @
         [Enter_SetupClock 170000000, HAL_RCC_SYSCFG_CLK_ENABLE, HAL_RCC_PWR_CLK_ENABLE,
          Hal (HAL_RCC_ClockConfig ClkInit_HSI FLASH_LATENCY_6) HAL_OK,
          Hal (HAL_RCC_OscConfig (OscInit 170000000)) HAL_OK,
          Hal (HAL_RCC_ClockConfig ClkInit_PLL FLASH_LATENCY_6) HAL_OK,
          Hal (HAL_RCCEx_PeriphCLKConfig PeriphClkInit) HAL_OK,
          Construct ''power_led'', Construct ''timer'', Construct ''pool'', Construct ''usb'',
          Construct ''uart'', Construct ''write_stream'', Construct ''command_manager'',
          Construct ''telemetry_manager'', Construct ''flash_interface'',
          Construct ''persistent_config'', Construct ''clock'',
          PersistentConfig_Register ''clock'', Construct ''can_manager'',
          Construct ''firmware_info'', Construct ''git_info'',
          TelemetryManager_Register ''git'']"
    by (simp add: W_def SetupClock_Returns(1) [OF Returns])
  obtain es where es:
      "trace (final (Load hal persisted W)) = trace W @ PersistentConfig_Load # es"
      "PersistentConfig_Load \<notin> set es" "\<forall>x. Construct x \<notin> set es"
    using Load_single [OF el, of hal persisted] by blast
  have mb: "main_boot hal persisted w = and_then (Load hal persisted W)
          (\<lambda>w. Returns (emit CanManager_Start (emit CommandManager_AsyncStart w)))"
    by (simp add: main_boot_def Returns W_def)
  have "\<exists>post. trace (final (main_boot hal persisted w))
          = trace W @ PersistentConfig_Load # post
       \<and> PersistentConfig_Load \<notin> set post \<and> (\<forall>x. Construct x \<notin> set post)"
  proof (cases "Load hal persisted W")
    case (Returns w3)
    with es mb show ?thesis by simp
  next
    case (Halts w3)
    with es mb show ?thesis by simp
  qed
  then show ?thesis
    unfolding tW by auto
qed

theorem main_boot_order_witness:
  "trace (final (main_boot hal_accepts (\<lambda>key. None) (world0 ()))) =
         [Enter_SetupClock 170000000, HAL_RCC_SYSCFG_CLK_ENABLE, HAL_RCC_PWR_CLK_ENABLE,
          Hal (HAL_RCC_ClockConfig ClkInit_HSI FLASH_LATENCY_6) HAL_OK,
          Hal (HAL_RCC_OscConfig (OscInit 170000000)) HAL_OK,
          Hal (HAL_RCC_ClockConfig ClkInit_PLL FLASH_LATENCY_6) HAL_OK,
          Hal (HAL_RCCEx_PeriphCLKConfig PeriphClkInit) HAL_OK,
          Construct ''power_led'', Construct ''timer'', Construct ''pool'', Construct ''usb'',
          Construct ''uart'', Construct ''write_stream'', Construct ''command_manager'',
          Construct ''telemetry_manager'', Construct ''flash_interface'',
          Construct ''persistent_config'', Construct ''clock'',
          PersistentConfig_Register ''clock'', Construct ''can_manager'',
          Construct ''firmware_info'', Construct ''git_info'',
          TelemetryManager_Register ''git'', PersistentConfig_Load,
          Enter_SetupClock 170000000, HAL_RCC_SYSCFG_CLK_ENABLE, HAL_RCC_PWR_CLK_ENABLE,
          Hal (HAL_RCC_ClockConfig ClkInit_HSI FLASH_LATENCY_6) HAL_OK,
          Hal (HAL_RCC_OscConfig (OscInit 170000000)) HAL_OK,
          Hal (HAL_RCC_ClockConfig ClkInit_PLL FLASH_LATENCY_6) HAL_OK,
          Hal (HAL_RCCEx_PeriphCLKConfig PeriphClkInit) HAL_OK,
          CommandManager_AsyncStart, CanManager_Start]"
proof -
  have "SetupClock hal_accepts 170000000 (world0 ()) \<noteq> Halts w'" for w'
    by (simp add: hal_accepts_SetupClock)
  moreover have "trace (world0 ()) = []"
    by (simp add: world0_def)
  ultimately show ?thesis
    using main_boot_order [of hal_accepts "\<lambda>key. None" "world0 ()"]
    by (simp add: main_boot_def hal_accepts_SetupClock Load_def invoke_def UpdateConfig_def
        system_clock_hz_def can_clock_hz_def word_sle_eq Load_elements_Nil)
qed

section \<open>Properties of the scheduler loop\<close>

subsection \<open>The shape of the inner loop and of an outer cycle\<close>

lemma inner_loop_shape:
  "inner_loop n clk start k = (tr, r) \<Longrightarrow>
     (\<exists>p. tr = passes clk k p @ (case r of None \<Rightarrow> [] | Some k' \<Rightarrow> [(clk (k + 4 * p), timer_read_ms)])
        \<and> (case r of None \<Rightarrow> p = n
            | Some k' \<Rightarrow> p < n \<and> k' = k + 4 * p + 1
                 \<and> threshold_crossed start (read_ms (clk (k + 4 * p))))
        \<and> (\<forall>i<p. \<not> threshold_crossed start (read_ms (clk (k + 4 * i)))))"
proof (induction n arbitrary: k tr r)
  case 0
  then show ?case by auto
next
  case (Suc n)
  show ?case
  proof (cases "threshold_crossed start (read_ms (clk k))")
    case True
    with Suc.prems have "tr = [(clk k, timer_read_ms)]" "r = Some (k + 1)"
      by simp_all
    with True show ?thesis
      by (intro exI [of _ 0]) simp
  next
    case False
    obtain tr' r' where rec: "inner_loop n clk start (k + 4) = (tr', r')"
      by (cases "inner_loop n clk start (k + 4)")
    with False Suc.prems have tr: "tr = inner_pass clk k @ tr'" and r: "r = r'"
      by simp_all
    from Suc.IH [OF rec] obtain p where p:
      "tr' = passes clk (k + 4) p @ (case r' of None \<Rightarrow> [] | Some k' \<Rightarrow> [(clk (k + 4 + 4 * p), timer_read_ms)])"
      "case r' of None \<Rightarrow> p = n
            | Some k' \<Rightarrow> p < n \<and> k' = k + 4 + 4 * p + 1
                 \<and> threshold_crossed start (read_ms (clk (k + 4 + 4 * p)))"
      "\<forall>i<p. \<not> threshold_crossed start (read_ms (clk (k + 4 + 4 * i)))"
      by blast
    have "\<forall>i<Suc p. \<not> threshold_crossed start (read_ms (clk (k + 4 * i)))"
    proof (intro allI impI)
      fix i assume "i < Suc p"
      show "\<not> threshold_crossed start (read_ms (clk (k + 4 * i)))"
      proof (cases i)
        case 0
        with False show ?thesis by simp
      next
        case (Suc j)
        with \<open>i < Suc p\<close> p(3) have "\<not> threshold_crossed start (read_ms (clk (k + 4 + 4 * j)))"
          by simp
        with Suc show ?thesis by (simp add: ac_simps)
      qed
    qed
    with p(1,2) tr r show ?thesis
      by (intro exI [of _ "Suc p"]) (auto simp: ac_simps split: option.splits)
  qed
qed

lemma calls_passes:
  "calls (passes clk k p)
     = concat (replicate p [timer_read_ms, Poll uart, Poll can_manager, Poll usb])"
  by (induction p arbitrary: k) (simp_all add: calls_def inner_pass_def)

lemma polls_append: "polls (xs @ ys) = polls xs @ polls ys"
  by (induction xs rule: polls.induct) simp_all

lemma polls_passes:
  "polls (calls (passes clk k p)) = concat (replicate p [uart, can_manager, usb])"
  by (induction p arbitrary: k) (simp_all add: calls_def inner_pass_def)

lemma calls_append: "calls (xs @ ys) = calls xs @ calls ys"
  by (simp add: calls_def)

lemma outer_cycle_shape:
  "outer_cycle n clk k = (tr, r) \<Longrightarrow>
     (\<exists>p. tr = (clk k, timer_read_ms) # passes clk (k + 1) p @
             (case r of None \<Rightarrow> []
              | Some k' \<Rightarrow> [(clk (k + 4 * p + 1), timer_read_ms),
                            (clk (k + 4 * p + 2), Poll10Ms can_manager),
                            (clk (k + 4 * p + 3), Poll10Ms usb)])
        \<and> (case r of None \<Rightarrow> p = n
            | Some k' \<Rightarrow> p < n \<and> k' = k + 4 * p + 4
                 \<and> threshold_crossed (read_ms (clk k)) (read_ms (clk (k + 4 * p + 1))))
        \<and> (\<forall>i<p. \<not> threshold_crossed (read_ms (clk k)) (read_ms (clk (k + 4 * i + 1)))))"
proof -
  assume oc: "outer_cycle n clk k = (tr, r)"
  obtain tr' r' where il: "inner_loop n clk (read_ms (clk k)) (k + 1) = (tr', r')"
    by (cases "inner_loop n clk (read_ms (clk k)) (k + 1)")
  from inner_loop_shape [OF il] obtain p where p:
    "tr' = passes clk (k + 1) p @ (case r' of None \<Rightarrow> [] | Some k' \<Rightarrow> [(clk (k + 1 + 4 * p), timer_read_ms)])"
    "case r' of None \<Rightarrow> p = n
            | Some k' \<Rightarrow> p < n \<and> k' = k + 1 + 4 * p + 1
                 \<and> threshold_crossed (read_ms (clk k)) (read_ms (clk (k + 1 + 4 * p)))"
    "\<forall>i<p. \<not> threshold_crossed (read_ms (clk k)) (read_ms (clk (k + 1 + 4 * i)))"
    by blast
  have idx: "k + 1 + 4 * j = k + 4 * j + 1" "k + 1 + 4 * j + 1 = k + 4 * j + 2"
    "k + 4 * j + 2 + 1 = k + 4 * j + 3" "k + 4 * j + 2 + 2 = k + 4 * j + 4" for j
    by simp_all
  show ?thesis
  proof (cases r')
    case None
    with oc il p show ?thesis
      by (intro exI [of _ p]) (auto simp: outer_cycle_def numeral_3_eq_3)
  next
    case (Some k')
    with oc il p show ?thesis
      by (intro exI [of _ p]) (auto simp: outer_cycle_def numeral_3_eq_3)
  qed
qed

lemma outer_cycle_calls:
  "\<exists>p. calls (fst (outer_cycle n clk k)) =
     timer_read_ms # concat (replicate p [timer_read_ms, Poll uart, Poll can_manager, Poll usb])
       @ (case snd (outer_cycle n clk k) of None \<Rightarrow> []
          | Some k' \<Rightarrow> [timer_read_ms, Poll10Ms can_manager, Poll10Ms usb])"
proof -
  obtain tr r where oc: "outer_cycle n clk k = (tr, r)"
    by (cases "outer_cycle n clk k")
  from outer_cycle_shape [OF oc] obtain p where
    "tr = (clk k, timer_read_ms) # passes clk (k + 1) p @
             (case r of None \<Rightarrow> []
              | Some k' \<Rightarrow> [(clk (k + 4 * p + 1), timer_read_ms),
                            (clk (k + 4 * p + 2), Poll10Ms can_manager),
                            (clk (k + 4 * p + 3), Poll10Ms usb)])"
    by blast
  then have "calls tr = timer_read_ms # calls (passes clk (k + 1) p) @
             (case r of None \<Rightarrow> []
              | Some k' \<Rightarrow> [timer_read_ms, Poll10Ms can_manager, Poll10Ms usb])"
    by (simp add: calls_def split: option.splits)
  with oc show ?thesis
    by (auto simp: calls_passes)
qed

lemma outer_cycle_polls:
  "\<exists>p. polls (calls (fst (outer_cycle n clk k))) = concat (replicate p [uart, can_manager, usb])"
proof -
  obtain tr r where oc: "outer_cycle n clk k = (tr, r)"
    by (cases "outer_cycle n clk k")
  from outer_cycle_shape [OF oc] obtain p where
    "tr = (clk k, timer_read_ms) # passes clk (k + 1) p @
             (case r of None \<Rightarrow> []
              | Some k' \<Rightarrow> [(clk (k + 4 * p + 1), timer_read_ms),
                            (clk (k + 4 * p + 2), Poll10Ms can_manager),
                            (clk (k + 4 * p + 3), Poll10Ms usb)])"
    by blast
  then have "calls tr = timer_read_ms # calls (passes clk (k + 1) p) @
             (case r of None \<Rightarrow> []
              | Some k' \<Rightarrow> [timer_read_ms, Poll10Ms can_manager, Poll10Ms usb])"
    by (simp add: calls_def split: option.splits)
  then have "polls (calls tr) = concat (replicate p [uart, can_manager, usb])"
    by (simp add: polls_append polls_passes split: option.splits)
  with oc show ?thesis by auto
qed

lemma main_loop_polls:
  "\<exists>q. polls (calls (main_loop c n clk k)) = concat (replicate q [uart, can_manager, usb])"
proof (induction c arbitrary: k)
  case 0
  show ?case by (intro exI [of _ 0]) (simp add: calls_def)
next
  case (Suc c)
  obtain tr r where oc: "outer_cycle n clk k = (tr, r)"
    by (cases "outer_cycle n clk k")
  from outer_cycle_polls [of n clk k] oc obtain p where
    p: "polls (calls tr) = concat (replicate p [uart, can_manager, usb])"
    by auto
  show ?case
  proof (cases r)
    case None
    with oc p show ?thesis by auto
  next
    case (Some k')
    from Suc.IH [of k'] obtain q where
      "polls (calls (main_loop c n clk k')) = concat (replicate q [uart, can_manager, usb])"
      by blast
    with oc p Some have "polls (calls (main_loop (Suc c) n clk k))
        = concat (replicate (p + q) [uart, can_manager, usb])"
      by (simp add: calls_append polls_append replicate_add)
    then show ?thesis by blast
  qed
qed

lemma inner_loop_calls:
  "\<exists>p. calls (fst (inner_loop n clk start k)) =
     concat (replicate p [timer_read_ms, Poll uart, Poll can_manager, Poll usb])
       @ (case snd (inner_loop n clk start k) of None \<Rightarrow> [] | Some k' \<Rightarrow> [timer_read_ms])"
proof -
  obtain tr r where il: "inner_loop n clk start k = (tr, r)"
    by (cases "inner_loop n clk start k")
  from inner_loop_shape [OF il] obtain p where
    "tr = passes clk k p @ (case r of None \<Rightarrow> [] | Some k' \<Rightarrow> [(clk (k + 4 * p), timer_read_ms)])"
    by blast
  then have "calls tr = calls (passes clk k p) @ (case r of None \<Rightarrow> [] | Some k' \<Rightarrow> [timer_read_ms])"
    by (simp add: calls_def split: option.splits)
  with il show ?thesis
    by (auto simp: calls_passes)
qed

subsection \<open>Elapsed time\<close>

lemma read_ms_diff: "read_ms (t + e) - read_ms t = of_nat e"
  by (simp add: read_ms_def)

lemma unat_of_nat32: "unat (of_nat e :: 32 word) = e mod 2 ^ 32"
  by (simp add: unat_of_nat)

lemma threshold_crossed_elapsed:
  "threshold_crossed (read_ms t) (read_ms (t + e)) \<longleftrightarrow> 10 < e mod 2 ^ 32"
proof -
  have "threshold_crossed (read_ms t) (read_ms (t + e)) \<longleftrightarrow> (10 :: 32 word) < of_nat e"
    by (simp add: threshold_crossed_def read_ms_diff)
  also have "\<dots> \<longleftrightarrow> unat (10 :: 32 word) < unat (of_nat e :: 32 word)"
    by (rule word_less_nat_alt)
  also have "\<dots> \<longleftrightarrow> 10 < e mod 2 ^ 32"
    by (simp add: unat_of_nat32)
  finally show ?thesis .
qed

lemma threshold_crossed_mono:
  assumes "t \<le> t'" and "threshold_crossed (read_ms t) (read_ms t')"
  shows "t + 10 < t'"
proof -
  from assms(1) obtain e where e: "t' = t + e"
    using le_Suc_ex by blast
  with assms(2) have "10 < e mod 2 ^ 32"
    by (simp add: threshold_crossed_elapsed)
  moreover have "e mod 2 ^ 32 \<le> e"
    by (rule mod_less_eq_dividend)
  ultimately show ?thesis using e by linarith
qed

lemma count_passes [simp]: "count_list (calls (passes clk k p)) (Poll10Ms q) = 0"
  by (induction p arbitrary: k) (simp_all add: calls_def inner_pass_def)

lemma inner_loop_completes:
  "\<exists>p<n. threshold_crossed start (read_ms (clk (k + 4 * p)))
     \<Longrightarrow> \<exists>tr k'. inner_loop n clk start k = (tr, Some k')"
proof (induction n arbitrary: k)
  case 0
  then show ?case by simp
next
  case (Suc n)
  show ?case
  proof (cases "threshold_crossed start (read_ms (clk k))")
    case True
    then show ?thesis by simp
  next
    case False
    from Suc.prems obtain p where p: "p < Suc n" "threshold_crossed start (read_ms (clk (k + 4 * p)))"
      by blast
    with False obtain p' where p': "p = Suc p'"
      by (cases p) auto
    with p have "\<exists>q<n. threshold_crossed start (read_ms (clk (k + 4 + 4 * q)))"
      by (intro exI [of _ p']) (simp add: ac_simps)
    from Suc.IH [OF this] obtain tr k' where "inner_loop n clk start (k + 4) = (tr, Some k')"
      by blast
    with False show ?thesis by simp
  qed
qed

lemma outer_cycle_completes:
  assumes "\<exists>p<n. threshold_crossed (read_ms (clk k)) (read_ms (clk (k + 4 * p + 1)))"
  shows "\<exists>tr k'. outer_cycle n clk k = (tr, Some k')"
proof -
  from assms have "\<exists>p<n. threshold_crossed (read_ms (clk k)) (read_ms (clk (k + 1 + 4 * p)))"
    by (simp add: ac_simps)
  from inner_loop_completes [OF this] show ?thesis
    by (auto simp: outer_cycle_def)
qed

lemma outer_cycle_time:
  assumes "mono clk" and "outer_cycle n clk k = (tr, Some k')"
  shows "\<exists>p. tr = (clk k, timer_read_ms) # passes clk (k + 1) p @
             [(clk (k + 4 * p + 1), timer_read_ms),
              (clk (k + 4 * p + 2), Poll10Ms can_manager),
              (clk (k + 4 * p + 3), Poll10Ms usb)]
          \<and> k' = k + 4 * p + 4
          \<and> clk k + 10 < clk (k + 4 * p + 1)
          \<and> clk (k + 4 * p + 1) \<le> clk (k + 4 * p + 2)
          \<and> clk (k + 4 * p + 2) \<le> clk (k + 4 * p + 3)"
proof -
  from outer_cycle_shape [OF assms(2)] obtain p where p:
    "tr = (clk k, timer_read_ms) # passes clk (k + 1) p @
             [(clk (k + 4 * p + 1), timer_read_ms),
              (clk (k + 4 * p + 2), Poll10Ms can_manager),
              (clk (k + 4 * p + 3), Poll10Ms usb)]"
    "k' = k + 4 * p + 4"
    "threshold_crossed (read_ms (clk k)) (read_ms (clk (k + 4 * p + 1)))"
    by auto
  have "clk k \<le> clk (k + 4 * p + 1)"
    using assms(1) by (simp add: monoD)
  from threshold_crossed_mono [OF this p(3)] have "clk k + 10 < clk (k + 4 * p + 1)" .
  moreover have "clk (k + 4 * p + 1) \<le> clk (k + 4 * p + 2)" "clk (k + 4 * p + 2) \<le> clk (k + 4 * p + 3)"
    using assms(1) by (simp_all add: monoD)
  ultimately show ?thesis using p(1,2) by blast
qed

lemma outer_cycle_count:
  assumes "outer_cycle n clk k = (tr, Some k')"
  shows "count_list (calls tr) (Poll10Ms can_manager) = 1"
    and "count_list (calls tr) (Poll10Ms usb) = 1"
    and "count_list (calls tr) (Poll10Ms uart) = 0"
proof -
  from outer_cycle_shape [OF assms] obtain p where
    "tr = (clk k, timer_read_ms) # passes clk (k + 1) p @
             [(clk (k + 4 * p + 1), timer_read_ms),
              (clk (k + 4 * p + 2), Poll10Ms can_manager),
              (clk (k + 4 * p + 3), Poll10Ms usb)]"
    by auto
  then have c: "calls tr = timer_read_ms # calls (passes clk (k + 1) p) @
             [timer_read_ms, Poll10Ms can_manager, Poll10Ms usb]"
    by (simp add: calls_def)
  show "count_list (calls tr) (Poll10Ms can_manager) = 1"
    and "count_list (calls tr) (Poll10Ms usb) = 1"
    and "count_list (calls tr) (Poll10Ms uart) = 0"
    unfolding c by simp_all
qed

lemma outer_cycle_running:
  assumes "outer_cycle n clk k = (tr, None)"
  shows "count_list (calls tr) (Poll10Ms q) = 0"
proof -
  from outer_cycle_shape [OF assms] obtain p where
    "tr = (clk k, timer_read_ms) # passes clk (k + 1) p"
    by auto
  then have "calls tr = timer_read_ms # calls (passes clk (k + 1) p)"
    by (simp add: calls_def)
  then show ?thesis by simp
qed

lemma late_call_cycle:
  "outer_cycle 1 (\<lambda>i. if i = 0 then 0 else D * 2 ^ 32 + 11) 0 =
     ([(0, timer_read_ms), (D * 2 ^ 32 + 11, timer_read_ms),
       (D * 2 ^ 32 + 11, Poll10Ms can_manager), (D * 2 ^ 32 + 11, Poll10Ms usb)], Some 4)"
proof -
  have "threshold_crossed (read_ms 0) (read_ms (0 + (D * 2 ^ 32 + 11)))"
    unfolding threshold_crossed_elapsed by simp
  then show ?thesis
    by (simp add: outer_cycle_def)
qed

lemma outer_cycle_next:
  assumes "mono clk" and "outer_cycle n clk k = (tr, Some k')"
    and "outer_cycle n clk k' = (tr2, Some k'')"
  shows "clk (k' - 2) + 10 < clk (k'' - 2)" and "clk (k' - 1) + 10 < clk (k'' - 1)"
proof -
  from outer_cycle_time [OF assms(1,2)] obtain p where p: "k' = k + 4 * p + 4"
    by blast
  from outer_cycle_time [OF assms(1,3)] obtain q where q: "k'' = k' + 4 * q + 4"
    "clk k' + 10 < clk (k' + 4 * q + 1)"
    "clk (k' + 4 * q + 1) \<le> clk (k' + 4 * q + 2)"
    "clk (k' + 4 * q + 2) \<le> clk (k' + 4 * q + 3)"
    by blast
  have i: "k'' - 2 = k' + 4 * q + 2" "k'' - 1 = k' + 4 * q + 3"
    using q(1) by simp_all
  have a: "clk (k' - 2) \<le> clk k'" "clk (k' - 1) \<le> clk k'"
    using assms(1) by (simp_all add: monoD)
  show "clk (k' - 2) + 10 < clk (k'' - 2)"
    unfolding i using a(1) q(2,3) by linarith
  show "clk (k' - 1) + 10 < clk (k'' - 1)"
    unfolding i using a(2) q(2,3,4) by linarith
qed

subsection \<open>The claims about the scheduler\<close>

text \<open>
  Claim C3. A pass of the inner loop is an iteration that does not leave it; the
  iteration that leaves it reads the timer and makes no other call. The calls of the
  inner loop are whole passes, each the timer read followed by \<^verbatim>\<open>uart.Poll()\<close>,
  \<^verbatim>\<open>can_manager.Poll()\<close>, \<^verbatim>\<open>usb.Poll()\<close> in this order, each once, and then at most the
  read that leaves the loop. So the \<^verbatim>\<open>Poll()\<close> calls of an outer cycle, and of any number
  of outer cycles, are uart, can_manager, usb repeated a whole number of times.
\<close>

theorem Poll_order_in_every_pass:
  "(\<exists>p. calls (fst (inner_loop n clk start k)) =
       concat (replicate p [timer_read_ms, Poll uart, Poll can_manager, Poll usb])
         @ (case snd (inner_loop n clk start k) of None \<Rightarrow> [] | Some k' \<Rightarrow> [timer_read_ms]))
   \<and> (\<exists>p. polls (calls (fst (outer_cycle n clk k)))
          = concat (replicate p [uart, can_manager, usb]))
   \<and> (\<exists>q. polls (calls (main_loop c n clk k)) = concat (replicate q [uart, can_manager, usb]))"
  using inner_loop_calls [of n clk start k] outer_cycle_polls [of n clk k]
    main_loop_polls [of c n clk k]
  by blast

theorem Poll_order_in_every_pass_witness:
  "polls (calls (main_loop 2 2 (\<lambda>i. 3 * i) 0))
     = [uart, can_manager, usb, uart, can_manager, usb]"
proof -
  have "\<not> threshold_crossed (read_ms 0) (read_ms 3)" "threshold_crossed (read_ms 0) (read_ms 15)"
    "\<not> threshold_crossed (read_ms 24) (read_ms 27)" "threshold_crossed (read_ms 24) (read_ms 39)"
    by (simp_all add: threshold_crossed_def read_ms_def)
  then show ?thesis
    using Poll_order_in_every_pass [where c = 2 and n = 2 and clk = "\<lambda>i. 3 * i" and k = 0]
    by (simp add: outer_cycle_def numeral_2_eq_2 inner_pass_def calls_def)
qed

text \<open>
  Claim C4. Let the uptime be monotone along the calls. An outer cycle that is
  completed consists of the read of \<open>start\<close>, whole passes, the read that crosses the
  threshold, \<^verbatim>\<open>can_manager.Poll10Ms()\<close> and \<^verbatim>\<open>usb.Poll10Ms()\<close>, each \<^verbatim>\<open>Poll10Ms()\<close> once
  (and none for uart); more than 10 ms of uptime lie between the read of \<open>start\<close> and the
  crossing read, which is not later than the two \<^verbatim>\<open>Poll10Ms()\<close> calls; the next cycle
  begins right after them; and a \<^verbatim>\<open>Poll10Ms()\<close> call of the next cycle is more than 10 ms
  after the same call of this one. The cycle is completed as soon as a read at the start
  of an iteration crosses the threshold; until then it has made no \<^verbatim>\<open>Poll10Ms()\<close> call. The delay has no upper bound: for every \<open>D\<close>
  there is a run whose first \<^verbatim>\<open>Poll10Ms()\<close> comes at least \<open>D\<close> ms after the read of
  \<open>start\<close>.
\<close>

theorem Poll10Ms_once_per_cycle:
  assumes "mono clk"
  shows "(outer_cycle n clk k = (tr, Some k') \<longrightarrow>
       (\<exists>p. tr = (clk k, timer_read_ms) # passes clk (k + 1) p @
               [(clk (k' - 3), timer_read_ms), (clk (k' - 2), Poll10Ms can_manager),
                (clk (k' - 1), Poll10Ms usb)]
          \<and> k' = k + 4 * p + 4)
       \<and> clk k + 10 < clk (k' - 3) \<and> clk (k' - 3) \<le> clk (k' - 2) \<and> clk (k' - 2) \<le> clk (k' - 1)
       \<and> count_list (calls tr) (Poll10Ms can_manager) = 1
       \<and> count_list (calls tr) (Poll10Ms usb) = 1
       \<and> count_list (calls tr) (Poll10Ms uart) = 0
       \<and> main_loop (Suc c) n clk k = tr @ main_loop c n clk k'
       \<and> (outer_cycle n clk k' = (tr2, Some k'') \<longrightarrow>
            clk (k' - 2) + 10 < clk (k'' - 2) \<and> clk (k' - 1) + 10 < clk (k'' - 1)))
   \<and> ((\<exists>p<n. threshold_crossed (read_ms (clk k)) (read_ms (clk (k + 4 * p + 1)))) \<longrightarrow>
        (\<exists>tr k'. outer_cycle n clk k = (tr, Some k')))
   \<and> (\<exists>late tr k'. mono late \<and> outer_cycle 1 late 0 = (tr, Some k')
         \<and> late 0 + D \<le> late (k' - 2))
   \<and> (outer_cycle n clk k = (tr, None) \<longrightarrow> count_list (calls tr) (Poll10Ms q) = 0)"
proof (intro conjI impI)
  assume oc: "outer_cycle n clk k = (tr, Some k')"
  from outer_cycle_time [OF assms oc] obtain p where p:
    "tr = (clk k, timer_read_ms) # passes clk (k + 1) p @
             [(clk (k + 4 * p + 1), timer_read_ms),
              (clk (k + 4 * p + 2), Poll10Ms can_manager),
              (clk (k + 4 * p + 3), Poll10Ms usb)]"
    "k' = k + 4 * p + 4"
    "clk k + 10 < clk (k + 4 * p + 1)"
    "clk (k + 4 * p + 1) \<le> clk (k + 4 * p + 2)"
    "clk (k + 4 * p + 2) \<le> clk (k + 4 * p + 3)"
    by blast
  have i: "k' - 3 = k + 4 * p + 1" "k' - 2 = k + 4 * p + 2" "k' - 1 = k + 4 * p + 3"
    using p(2) by simp_all
  show "\<exists>p. tr = (clk k, timer_read_ms) # passes clk (k + 1) p @
               [(clk (k' - 3), timer_read_ms), (clk (k' - 2), Poll10Ms can_manager),
                (clk (k' - 1), Poll10Ms usb)]
          \<and> k' = k + 4 * p + 4"
    using p(1,2) unfolding i by blast
  show "clk k + 10 < clk (k' - 3)" "clk (k' - 3) \<le> clk (k' - 2)" "clk (k' - 2) \<le> clk (k' - 1)"
    using p(3,4,5) unfolding i by simp_all
  show "count_list (calls tr) (Poll10Ms can_manager) = 1"
    "count_list (calls tr) (Poll10Ms usb) = 1"
    "count_list (calls tr) (Poll10Ms uart) = 0"
    by (rule outer_cycle_count [OF oc])+
  show "main_loop (Suc c) n clk k = tr @ main_loop c n clk k'"
    by (simp add: oc)
  {
    assume oc2: "outer_cycle n clk k' = (tr2, Some k'')"
    show "clk (k' - 2) + 10 < clk (k'' - 2)" "clk (k' - 1) + 10 < clk (k'' - 1)"
      by (rule outer_cycle_next [OF assms oc oc2])+
  }
next
  assume "\<exists>p<n. threshold_crossed (read_ms (clk k)) (read_ms (clk (k + 4 * p + 1)))"
  then show "\<exists>tr k'. outer_cycle n clk k = (tr, Some k')"
    by (rule outer_cycle_completes)
next
  have "mono (\<lambda>i::nat. if i = 0 then 0 else D * 2 ^ 32 + 11)"
    by (simp add: mono_def)
  with late_call_cycle [of D]
  show "\<exists>late tr k'. mono late \<and> outer_cycle 1 late 0 = (tr, Some k')
         \<and> late 0 + D \<le> late (k' - 2)"
    by (intro exI [of _ "\<lambda>i::nat. if i = 0 then 0 else D * 2 ^ 32 + 11"] exI [of _ 4] exI) simp
next
  assume "outer_cycle n clk k = (tr, None)"
  then show "count_list (calls tr) (Poll10Ms q) = 0"
    by (rule outer_cycle_running)
qed

theorem Poll10Ms_once_per_cycle_witness:
  "mono (\<lambda>i::nat. 3 * i)
   \<and> outer_cycle 2 (\<lambda>i. 3 * i) 0 =
       ([(0, timer_read_ms), (3, timer_read_ms), (6, Poll uart), (9, Poll can_manager),
         (12, Poll usb), (15, timer_read_ms), (18, Poll10Ms can_manager), (21, Poll10Ms usb)],
        Some 8)
   \<and> outer_cycle 2 (\<lambda>i. 3 * i) 8 =
       ([(24, timer_read_ms), (27, timer_read_ms), (30, Poll uart), (33, Poll can_manager),
         (36, Poll usb), (39, timer_read_ms), (42, Poll10Ms can_manager), (45, Poll10Ms usb)],
        Some 16)
   \<and> threshold_crossed (read_ms 0) (read_ms 15)
   \<and> (0 :: nat) + 10 < 15 \<and> (18 :: nat) + 10 < 42 \<and> (21 :: nat) + 10 < 45"
proof -
  have m: "mono (\<lambda>i::nat. 3 * i)"
    by (simp add: mono_def)
  have t: "\<not> threshold_crossed (read_ms 0) (read_ms 3)" "threshold_crossed (read_ms 0) (read_ms 15)"
    "\<not> threshold_crossed (read_ms 24) (read_ms 27)" "threshold_crossed (read_ms 24) (read_ms 39)"
    by (simp_all add: threshold_crossed_def read_ms_def)
  have c1: "outer_cycle 2 (\<lambda>i. 3 * i) 0 =
       ([(0, timer_read_ms), (3, timer_read_ms), (6, Poll uart), (9, Poll can_manager),
         (12, Poll usb), (15, timer_read_ms), (18, Poll10Ms can_manager), (21, Poll10Ms usb)],
        Some 8)"
    using t by (simp add: outer_cycle_def numeral_2_eq_2 inner_pass_def)
  have c2: "outer_cycle 2 (\<lambda>i. 3 * i) 8 =
       ([(24, timer_read_ms), (27, timer_read_ms), (30, Poll uart), (33, Poll can_manager),
         (36, Poll usb), (39, timer_read_ms), (42, Poll10Ms can_manager), (45, Poll10Ms usb)],
        Some 16)"
    using t by (simp add: outer_cycle_def numeral_2_eq_2 inner_pass_def)
  note th = Poll10Ms_once_per_cycle [OF m, where n = 2 and k = 0 and k' = 8 and k'' = 16
      and tr = "[(0, timer_read_ms), (3, timer_read_ms), (6, Poll uart), (9, Poll can_manager),
         (12, Poll usb), (15, timer_read_ms), (18, Poll10Ms can_manager), (21, Poll10Ms usb)]"
      and ?tr2.0 = "[(24, timer_read_ms), (27, timer_read_ms), (30, Poll uart),
         (33, Poll can_manager), (36, Poll usb), (39, timer_read_ms),
         (42, Poll10Ms can_manager), (45, Poll10Ms usb)]"]
  from th c1 c2 have "(3 * 0 :: nat) + 10 < 3 * (8 - 3)"
    "(3 * (8 - 2) :: nat) + 10 < 3 * (16 - 2)" "(3 * (8 - 1) :: nat) + 10 < 3 * (16 - 1)"
    by blast+
  with m c1 c2 t(2) show ?thesis
    by simp
qed

text \<open>
  Claim C8. When the counter has advanced by \<open>e < 2^32\<close> milliseconds between the read
  of \<open>start\<close> and the read of \<open>now\<close>, the 32-bit unsigned difference \<open>now - start\<close> is
  \<open>e\<close> and the test \<^verbatim>\<open>now - start > 10\<close> holds exactly when \<open>e > 10\<close>, whatever the value
  of \<open>start\<close>, also when the counter has overflowed in between.
\<close>

theorem elapsed_tolerates_wraparound:
  assumes "e < 2 ^ 32"
  shows "unat (read_ms (t + e) - read_ms t) = e
    \<and> (threshold_crossed (read_ms t) (read_ms (t + e)) \<longleftrightarrow> 10 < e)
    \<and> unat ((start + of_nat e) - start) = e
    \<and> (threshold_crossed start (start + of_nat e) \<longleftrightarrow> 10 < e)"
proof -
  have u: "unat (of_nat e :: 32 word) = e"
    using assms by (simp add: unat_of_nat32)
  have "(10 :: 32 word) < of_nat e \<longleftrightarrow> unat (10 :: 32 word) < unat (of_nat e :: 32 word)"
    by (rule word_less_nat_alt)
  then have "(10 :: 32 word) < of_nat e \<longleftrightarrow> 10 < e"
    by (simp add: u)
  with u show ?thesis
    by (simp add: read_ms_diff threshold_crossed_def)
qed

theorem elapsed_tolerates_wraparound_witness:
  "(11 :: nat) < 2 ^ 32
   \<and> read_ms (4294967290 + 11) = 5 \<and> read_ms 4294967290 = 4294967290
   \<and> unat (read_ms (4294967290 + 11) - read_ms 4294967290) = 11
   \<and> threshold_crossed (read_ms 4294967290) (read_ms (4294967290 + 11))"
proof -
  have h: "(11 :: nat) < 2 ^ 32" by simp
  have "read_ms (4294967290 + 11) = 5" "read_ms 4294967290 = 4294967290"
    by (simp_all add: read_ms_def)
  with h elapsed_tolerates_wraparound [OF h, of 4294967290 0] show ?thesis
    by simp
qed

text \<open>
  Claim C10. In an outer cycle the timer is read, and the threshold tested, only
  before the first pass and after each whole pass: the calls before the two
  \<^verbatim>\<open>Poll10Ms()\<close> are the read of \<open>start\<close>, whole passes and the read that leaves the
  loop. A pass that has begun makes its three \<^verbatim>\<open>Poll()\<close> calls whatever the uptime
  during the pass; when the threshold is crossed at the first \<^verbatim>\<open>Poll()\<close> of a pass, the
  loop is left only at the read after the third.
\<close>

theorem threshold_checked_between_passes:
  "(\<exists>p. calls (fst (outer_cycle n clk k)) =
       timer_read_ms # concat (replicate p [timer_read_ms, Poll uart, Poll can_manager, Poll usb])
         @ (case snd (outer_cycle n clk k) of None \<Rightarrow> []
            | Some k' \<Rightarrow> [timer_read_ms, Poll10Ms can_manager, Poll10Ms usb]))
   \<and> (\<not> threshold_crossed start (read_ms (clk k)) \<longrightarrow>
        (\<exists>tr'. fst (inner_loop (Suc n) clk start k) =
           [(clk k, timer_read_ms), (clk (k + 1), Poll uart), (clk (k + 2), Poll can_manager),
            (clk (k + 3), Poll usb)] @ tr'))
   \<and> (\<not> threshold_crossed start (read_ms (clk k))
        \<and> threshold_crossed start (read_ms (clk (k + 1)))
        \<and> threshold_crossed start (read_ms (clk (k + 4))) \<longrightarrow>
        inner_loop (Suc (Suc n)) clk start k =
          ([(clk k, timer_read_ms), (clk (k + 1), Poll uart), (clk (k + 2), Poll can_manager),
            (clk (k + 3), Poll usb), (clk (k + 4), timer_read_ms)], Some (k + 5)))"
proof (intro conjI impI)
  show "\<exists>p. calls (fst (outer_cycle n clk k)) =
       timer_read_ms # concat (replicate p [timer_read_ms, Poll uart, Poll can_manager, Poll usb])
         @ (case snd (outer_cycle n clk k) of None \<Rightarrow> []
            | Some k' \<Rightarrow> [timer_read_ms, Poll10Ms can_manager, Poll10Ms usb])"
    by (rule outer_cycle_calls)
next
  assume "\<not> threshold_crossed start (read_ms (clk k))"
  then show "\<exists>tr'. fst (inner_loop (Suc n) clk start k) =
           [(clk k, timer_read_ms), (clk (k + 1), Poll uart), (clk (k + 2), Poll can_manager),
            (clk (k + 3), Poll usb)] @ tr'"
    by (simp add: inner_pass_def split: prod.splits)
next
  assume "\<not> threshold_crossed start (read_ms (clk k))
        \<and> threshold_crossed start (read_ms (clk (k + 1)))
        \<and> threshold_crossed start (read_ms (clk (k + 4)))"
  then show "inner_loop (Suc (Suc n)) clk start k =
          ([(clk k, timer_read_ms), (clk (k + 1), Poll uart), (clk (k + 2), Poll can_manager),
            (clk (k + 3), Poll usb), (clk (k + 4), timer_read_ms)], Some (k + 5))"
    by (simp add: inner_pass_def)
qed

theorem threshold_checked_between_passes_witness:
  "\<not> threshold_crossed (read_ms 0) (read_ms 0)
   \<and> threshold_crossed (read_ms 0) (read_ms 100)
   \<and> inner_loop (Suc (Suc 0)) (\<lambda>i. if i \<le> 1 then 0 else 100) (read_ms 0) 1 =
       ([(0, timer_read_ms), (100, Poll uart), (100, Poll can_manager), (100, Poll usb),
         (100, timer_read_ms)], Some 6)"
proof -
  have a: "\<not> threshold_crossed (read_ms 0) (read_ms 0)"
    by (simp add: threshold_crossed_def read_ms_def)
  have b: "threshold_crossed (read_ms 0) (read_ms 100)"
    by (simp add: threshold_crossed_def read_ms_def)
  show ?thesis
    using a b threshold_checked_between_passes
      [where n = 0 and clk = "\<lambda>i. if i \<le> 1 then 0 else 100" and start = "read_ms 0"
         and k = 1]
    by simp
qed

end
